theory Spec2Isabelle
  imports Complex_Main "HOL-Library.Multiset"
begin

section \<open>Module constants of \<open>flow/envs/straightroad_env.py\<close>\<close>

definition MAX_LANES :: nat where
  "MAX_LANES = 6"

definition MAX_NUM_VEHS :: nat where
  "MAX_NUM_VEHS = 8"

definition SPEED_SCALE :: real where
  "SPEED_SCALE = 50"

definition HEADWAY_SCALE :: real where
  "HEADWAY_SCALE = 1000"

section \<open>Data model\<close>

text \<open>
  Vehicle identifiers are strings. Speeds, positions and headways are Python floats; they
  are modelled as reals. The special values of float arithmetic (NaN and the infinities)
  are constructors of \<open>npfloat\<close>. The number that \<open>compute_reward\<close> returns is computed
  in float64 arithmetic, every operation rounded; the scaling of \<open>get_state\<close> and the mean
  that \<open>step\<close> compares with a threshold are taken without rounding.
\<close>

type_synonym veh_id = string

datatype error = KeyError | IndexError | ValueError | OverflowError

datatype npfloat = Finite real | NaN | PosInf | NegInf

text \<open>
  The part of the simulation kernel (\<open>self.k.vehicle\<close>) that the environment reads, as a
  snapshot, and the one call through which it actuates: every call of
  \<open>apply_acceleration(veh_ids, accels)\<close> is appended to \<open>applied_accelerations\<close>.
  \<open>get_leader\<close> returns an identifier, the empty string, or \<open>None\<close>.
\<close>

record vehicle_kernel =
  get_rl_ids :: "veh_id list"
  get_ids :: "veh_id list"
  get_speed :: "veh_id \<Rightarrow> real"
  get_x_by_id :: "veh_id \<Rightarrow> real"
  get_leader :: "veh_id \<Rightarrow> veh_id option"
  get_headway :: "veh_id \<Rightarrow> real"
  applied_accelerations :: "(veh_id list \<times> real list) list"

text \<open>
  \<open>env_params.additional_params\<close> is a dictionary; a field is \<open>None\<close> when the key is
  absent. \<open>lead_obs\<close> is read with \<open>.get\<close> (an absent key is falsy); the others are read
  with \<open>[...]\<close>, which raises \<open>KeyError\<close> on an absent key.
\<close>

record additional_params =
  lead_obs :: "bool option"
  target_velocity :: "real option"
  terminate_on_wave :: "bool option"
  wave_termination_horizon :: "int option"
  wave_termination_speed :: "real option"

record env =
  params :: additional_params
  max_lanes :: nat
  time_counter :: int
  k :: vehicle_kernel

section \<open>numpy and Python primitives\<close>

text \<open>
  \<open>np.mean\<close> of a list of finite numbers, without rounding: the mean of the empty list
  is NaN.
\<close>

definition np_mean :: "real list \<Rightarrow> npfloat" where
  "np_mean xs = (if xs = [] then NaN else Finite (sum_list xs / real (length xs)))"

definition float_max :: real where
  "float_max = (2 - 1 / 2 ^ 52) * 2 ^ 1023"

text \<open>\<open>np.nan_to_num\<close>: NaN becomes 0, the infinities the largest finite floats.\<close>

fun nan_to_num :: "npfloat \<Rightarrow> real" where
  "nan_to_num (Finite x) = x"
| "nan_to_num NaN = 0"
| "nan_to_num PosInf = float_max"
| "nan_to_num NegInf = - float_max"

text \<open>The slice \<open>xs[-n:]\<close> for \<open>n \<ge> 0\<close>; \<open>xs[-0:]\<close> is the whole list.\<close>

definition slice_last :: "nat \<Rightarrow> 'a list \<Rightarrow> 'a list" where
  "slice_last n xs = (if n = 0 then xs else drop (length xs - n) xs)"

text \<open>
  The assignment \<open>a[lo:hi] = vals\<close> on a one-dimensional numpy array: the slice is clipped
  to the array; \<open>vals\<close> must have the length of the clipped slice, or length one
  (broadcast); otherwise numpy raises \<open>ValueError\<close>.
\<close>

definition np_set_slice :: "real list \<Rightarrow> nat \<Rightarrow> nat \<Rightarrow> real list \<Rightarrow> error + real list" where
  "np_set_slice a lo hi vals =
     (let n = length a; start = min lo n; stop = max start (min hi n); len = stop - start
      in if length vals = len then Inr (take start a @ vals @ drop stop a)
         else (case vals of
                 [x] \<Rightarrow> Inr (take start a @ replicate len x @ drop stop a)
               | _ \<Rightarrow> Inl ValueError))"

section \<open>Float64 arithmetic\<close>

text \<open>
  The arithmetic of \<open>compute_reward\<close> is float64 arithmetic: the result of an operation
  on finite operands is the exact result rounded to the nearest float64 value, ties to
  the value with an even significand, and an infinity when the rounded value reaches
  \<open>2 ^ 1024\<close>. Signed zeros are not distinguished.

  \<open>round_half_even\<close> rounds a real to the nearest integer, ties to even.
\<close>

definition round_half_even :: "real \<Rightarrow> int" where
  "round_half_even x =
     (let f = \<lfloor>x\<rfloor>
      in if x - of_int f < 1 / 2 then f
         else if 1 / 2 < x - of_int f then f + 1
         else if even f then f else f + 1)"

text \<open>
  The exponent \<open>e\<close> of the binade of \<open>x\<close>: the largest \<open>e\<close> between \<open>-1022\<close> and 1023
  with \<open>2 powi e \<le> \<bar>x\<bar>\<close>, and \<open>-1022\<close> for subnormal \<open>x\<close> and for 0. The float64 values
  of that binade are the multiples of \<open>2 powi (e - 52)\<close>.
\<close>

fun find_binade :: "nat \<Rightarrow> real \<Rightarrow> int" where
  "find_binade 0 x = - 1022"
| "find_binade (Suc n) x =
     (if 2 powi (int (Suc n) - 1022) \<le> \<bar>x\<bar> then int (Suc n) - 1022 else find_binade n x)"

definition binade :: "real \<Rightarrow> int" where
  "binade x = find_binade 2045 x"

definition round64_val :: "real \<Rightarrow> real" where
  "round64_val x =
     (let u = 2 powi (binade x - 52) in of_int (round_half_even (x / u)) * u)"

definition round64 :: "real \<Rightarrow> npfloat" where
  "round64 x =
     (let y = round64_val x
      in if 2 ^ 1024 \<le> y then PosInf else if y \<le> - (2 ^ 1024) then NegInf else Finite y)"

text \<open>Negation, absolute value, addition and subtraction of float64 values.\<close>

fun fl_neg :: "npfloat \<Rightarrow> npfloat" where
  "fl_neg (Finite x) = Finite (- x)"
| "fl_neg NaN = NaN"
| "fl_neg PosInf = NegInf"
| "fl_neg NegInf = PosInf"

fun fl_abs :: "npfloat \<Rightarrow> npfloat" where
  "fl_abs (Finite x) = Finite \<bar>x\<bar>"
| "fl_abs NaN = NaN"
| "fl_abs PosInf = PosInf"
| "fl_abs NegInf = PosInf"

fun fl_add :: "npfloat \<Rightarrow> npfloat \<Rightarrow> npfloat" where
  "fl_add (Finite x) (Finite y) = round64 (x + y)"
| "fl_add NaN _ = NaN"
| "fl_add _ NaN = NaN"
| "fl_add PosInf NegInf = NaN"
| "fl_add NegInf PosInf = NaN"
| "fl_add PosInf _ = PosInf"
| "fl_add _ PosInf = PosInf"
| "fl_add NegInf _ = NegInf"
| "fl_add _ NegInf = NegInf"

definition fl_sub :: "npfloat \<Rightarrow> npfloat \<Rightarrow> npfloat" where
  "fl_sub a b = fl_add a (fl_neg b)"

text \<open>
  \<open>x ** 2\<close> on a numpy float: the square, taken as correctly rounded; an overflow gives
  infinity, with a warning and no exception.
\<close>

fun fl_pow2 :: "npfloat \<Rightarrow> npfloat" where
  "fl_pow2 (Finite x) = round64 (x * x)"
| "fl_pow2 NaN = NaN"
| "fl_pow2 PosInf = PosInf"
| "fl_pow2 NegInf = PosInf"

text \<open>
  \<open>x ** 2\<close> on a Python float: the square, taken as correctly rounded; an overflow
  raises \<open>OverflowError\<close>, an underflow gives zero.
\<close>

definition py_pow2 :: "real \<Rightarrow> error + real" where
  "py_pow2 x = (case round64 (x * x) of Finite y \<Rightarrow> Inr y | _ \<Rightarrow> Inl OverflowError)"

text \<open>Division of a float64 value by a positive count.\<close>

fun fl_div_count :: "npfloat \<Rightarrow> nat \<Rightarrow> npfloat" where
  "fl_div_count (Finite x) n = round64 (x / real n)"
| "fl_div_count NaN n = NaN"
| "fl_div_count PosInf n = PosInf"
| "fl_div_count NegInf n = NegInf"

text \<open>
  The sum that \<open>np.mean\<close> takes of a one-dimensional float64 array: numpy adds fewer than
  eight elements from left to right, starting from zero; from eight elements on it adds
  the first eight pairwise and the elements after them from left to right (the form of its
  pairwise summation for up to fifteen elements; \<open>get_sorted_rl_ids\<close> returns at most
  eight).
\<close>

fun np_sum :: "npfloat list \<Rightarrow> npfloat" where
  "np_sum (r0 # r1 # r2 # r3 # r4 # r5 # r6 # r7 # rest) =
     foldl fl_add
       (fl_add (fl_add (fl_add r0 r1) (fl_add r2 r3)) (fl_add (fl_add r4 r5) (fl_add r6 r7)))
       rest"
| "np_sum xs = foldl fl_add (Finite 0) xs"

text \<open>
  \<open>np.mean\<close> of a list of float64 values, in float64 arithmetic: the sum divided by the
  count; the mean of the empty list is NaN.
\<close>

definition np_mean_float64 :: "npfloat list \<Rightarrow> npfloat" where
  "np_mean_float64 xs = (if xs = [] then NaN else fl_div_count (np_sum xs) (length xs))"

text \<open>
  Division of a numpy float by a float: the rounded quotient; no exception; dividing by
  zero gives NaN for a zero numerator and a signed infinity otherwise.
\<close>

definition np_divide :: "real \<Rightarrow> real \<Rightarrow> npfloat" where
  "np_divide a b =
     (if b \<noteq> 0 then round64 (a / b)
      else if a = 0 then NaN
      else if 0 < a then PosInf else NegInf)"

text \<open>The order of float64 values; NaN is not comparable.\<close>

fun fl_le :: "npfloat \<Rightarrow> npfloat \<Rightarrow> bool" where
  "fl_le (Finite x) (Finite y) = (x \<le> y)"
| "fl_le NaN _ = False"
| "fl_le _ NaN = False"
| "fl_le NegInf _ = True"
| "fl_le _ PosInf = True"
| "fl_le PosInf _ = False"
| "fl_le _ NegInf = False"

section \<open>\<open>I210SingleEnv\<close>\<close>

definition observation_space_shape :: "env \<Rightarrow> nat" where
  "observation_space_shape e =
     (if lead_obs (params e) = Some True then 3 * MAX_NUM_VEHS
      else (let leading_obs = 3 * max_lanes e;
                follow_obs = 3 * max_lanes e;
                self_obs = 2
            in leading_obs + follow_obs + self_obs))"

definition action_space_shape :: nat where
  "action_space_shape = 1 * MAX_NUM_VEHS"

definition get_sorted_rl_ids :: "vehicle_kernel \<Rightarrow> veh_id list" where
  "get_sorted_rl_ids v =
     (let rl_ids = get_rl_ids v;
          rl_ids = rev (sort_key (get_x_by_id v) rl_ids);
          rl_ids = slice_last MAX_NUM_VEHS rl_ids
      in rl_ids)"

text \<open>The body of the \<open>for i, rl_id in enumerate(rl_ids)\<close> loop of \<open>get_state\<close>.\<close>

fun get_state_loop :: "vehicle_kernel \<Rightarrow> nat \<Rightarrow> veh_id list \<Rightarrow> real list \<Rightarrow> error + real list" where
  "get_state_loop v i [] veh_info = Inr veh_info"
| "get_state_loop v i (rl_id # rest) veh_info =
     (let per_vehicle_obs = 3;
          speed = get_speed v rl_id;
          lead_id = get_leader v rl_id;
          (lead_speed, headway) =
             (case lead_id of
                None \<Rightarrow> (SPEED_SCALE, HEADWAY_SCALE)
              | Some l \<Rightarrow>
                  if l = [] then (SPEED_SCALE, HEADWAY_SCALE)
                  else (get_speed v l, get_headway v rl_id))
      in case np_set_slice veh_info (i * per_vehicle_obs) ((i + 1) * per_vehicle_obs)
                [speed / SPEED_SCALE, headway / HEADWAY_SCALE, lead_speed / SPEED_SCALE] of
           Inl err \<Rightarrow> Inl err
         | Inr veh_info' \<Rightarrow> get_state_loop v (i + 1) rest veh_info')"

definition get_state :: "env \<Rightarrow> error + real list" where
  "get_state e =
     (let rl_ids = get_sorted_rl_ids (k e);
          veh_info = replicate (observation_space_shape e) 0
      in get_state_loop (k e) 0 rl_ids veh_info)"

text \<open>
  The result of \<open>compute_reward\<close>: the empty dictionary of the warm-up phase, or a number.
\<close>

datatype reward = Empty_dict | Reward npfloat

text \<open>
  \<open>compute_reward\<close>. The speeds and the target velocity are Python floats; \<open>np.abs\<close>
  returns a numpy float, so the terms of the list are computed in numpy arithmetic,
  while \<open>des_speed**2\<close> in the divisor is a power of a Python float.
\<close>

definition compute_reward :: "env \<Rightarrow> real list option \<Rightarrow> error + reward" where
  "compute_reward e rl_actions =
     (case rl_actions of
        None \<Rightarrow> Inr Empty_dict
      | Some _ \<Rightarrow>
          (let rl_ids = get_sorted_rl_ids (k e)
           in case target_velocity (params e) of
                None \<Rightarrow> Inl KeyError
              | Some des_speed \<Rightarrow>
                  (let mean =
                         nan_to_num (np_mean_float64
                           (map (\<lambda>speed. fl_pow2 (fl_sub (Finite des_speed)
                                            (fl_abs (fl_sub (Finite speed) (Finite des_speed)))))
                                (map (get_speed (k e)) rl_ids)))
                   in case py_pow2 des_speed of
                        Inl err \<Rightarrow> Inl err
                      | Inr square \<Rightarrow> Inr (Reward (np_divide mean square)))))"

text \<open>
  The loop of \<open>_apply_rl_actions\<close>: \<open>rl_actions[i]\<close> raises \<open>IndexError\<close> when \<open>i\<close> is not
  below the length of the action vector.
\<close>

fun apply_rl_actions_loop ::
  "real list \<Rightarrow> nat \<Rightarrow> veh_id list \<Rightarrow> real list \<Rightarrow> veh_id list \<Rightarrow> error + (real list \<times> veh_id list)" where
  "apply_rl_actions_loop rl_actions i [] accels veh_ids = Inr (accels, veh_ids)"
| "apply_rl_actions_loop rl_actions i (rl_id # rest) accels veh_ids =
     (if i < length rl_actions
      then apply_rl_actions_loop rl_actions (i + 1) rest
             (accels @ [rl_actions ! i]) (veh_ids @ [rl_id])
      else Inl IndexError)"

definition apply_acceleration :: "veh_id list \<Rightarrow> real list \<Rightarrow> vehicle_kernel \<Rightarrow> vehicle_kernel" where
  "apply_acceleration veh_ids acc v =
     v\<lparr>applied_accelerations := applied_accelerations v @ [(veh_ids, acc)]\<rparr>"

definition apply_rl_actions :: "env \<Rightarrow> real list option \<Rightarrow> error + env" where
  "apply_rl_actions e rl_actions =
     (case rl_actions of
        None \<Rightarrow> Inr e
      | Some acts \<Rightarrow>
          (let rl_ids = get_sorted_rl_ids (k e)
           in case apply_rl_actions_loop acts 0 rl_ids [] [] of
                Inl err \<Rightarrow> Inl err
              | Inr (accels, veh_ids) \<Rightarrow>
                  Inr (e\<lparr>k := apply_acceleration rl_ids accels (k e)\<rparr>)))"

section \<open>\<open>SingleStraightRoad\<close>\<close>

text \<open>
  \<open>SingleStraightRoad.step\<close>. The base class's \<open>step\<close> is not part of this module: its
  result \<open>(obs, rew, done, info)\<close> and the environment as it is after that call are the
  arguments. The conjunction is evaluated left to right and stops at the first false
  conjunct, so a key is only read when the conjuncts before it hold.
\<close>

definition step :: "env \<Rightarrow> 'obs \<times> 'rew \<times> bool \<times> 'info \<Rightarrow> error + 'obs \<times> 'rew \<times> bool \<times> 'info" where
  "step e base =
     (case base of (obs, rew, done, info) \<Rightarrow>
        (let mean_speed = nan_to_num (np_mean (map (get_speed (k e)) (get_ids (k e))))
         in case terminate_on_wave (params e) of
              None \<Rightarrow> Inl KeyError
            | Some tow \<Rightarrow>
                if \<not> tow then Inr (obs, rew, done, info)
                else (case wave_termination_speed (params e) of
                        None \<Rightarrow> Inl KeyError
                      | Some floor_speed \<Rightarrow>
                          if \<not> mean_speed < floor_speed then Inr (obs, rew, done, info)
                          else (case wave_termination_horizon (params e) of
                                  None \<Rightarrow> Inl KeyError
                                | Some horizon \<Rightarrow>
                                    if time_counter e > horizon \<and> length (get_ids (k e)) > 0
                                    then Inr (obs, rew, True, info)
                                    else Inr (obs, rew, done, info)))))"

section \<open>Concrete configurations and snapshots\<close>

text \<open>
  The dictionary \<open>ADDITIONAL_ENV_PARAMS\<close> of the module. It has no key
  \<open>target_velocity\<close>.
\<close>

definition ADDITIONAL_ENV_PARAMS :: additional_params where
  "ADDITIONAL_ENV_PARAMS =
     \<lparr>lead_obs = Some True, target_velocity = None, terminate_on_wave = Some True,
      wave_termination_horizon = Some 500, wave_termination_speed = Some 10\<rparr>"

text \<open>A kernel query given by a table; identifiers not in the table read as 0.\<close>

definition table_lookup :: "(veh_id \<times> real) list \<Rightarrow> veh_id \<Rightarrow> real" where
  "table_lookup t v = (case map_of t v of Some x \<Rightarrow> x | None \<Rightarrow> 0)"

text \<open>
  Two vehicles on the road, one of them controllable, with speeds 4 and 6 (mean speed 5);
  the vehicle in front has no leader.
\<close>

definition two_vehicles :: vehicle_kernel where
  "two_vehicles =
     \<lparr>get_rl_ids = [''a''], get_ids = [''a'', ''h''],
      get_speed = table_lookup [(''a'', 4), (''h'', 6)],
      get_x_by_id = table_lookup [(''a'', 10), (''h'', 20)],
      get_leader = map_of [(''a'', ''h''), (''h'', [])],
      get_headway = table_lookup [(''a'', 10), (''h'', 1000)],
      applied_accelerations = []\<rparr>"

definition wave_env :: "int \<Rightarrow> env" where
  "wave_env t =
     \<lparr>params = ADDITIONAL_ENV_PARAMS, max_lanes = 1, time_counter = t, k = two_vehicles\<rparr>"

text \<open>
  Nine controllable vehicles \<open>a\<close>, ..., \<open>i\<close> at positions 1, ..., 9: \<open>a\<close> is the
  furthest back, \<open>i\<close> the furthest along the road.
\<close>

definition nine_vehicles :: vehicle_kernel where
  "nine_vehicles =
     \<lparr>get_rl_ids = [''a'', ''b'', ''c'', ''d'', ''e'', ''f'', ''g'', ''h'', ''i''],
      get_ids = [''a'', ''b'', ''c'', ''d'', ''e'', ''f'', ''g'', ''h'', ''i''],
      get_speed = table_lookup [],
      get_x_by_id = table_lookup [(''a'', 1), (''b'', 2), (''c'', 3), (''d'', 4), (''e'', 5),
                                  (''f'', 6), (''g'', 7), (''h'', 8), (''i'', 9)],
      get_leader = map_of [],
      get_headway = table_lookup [],
      applied_accelerations = []\<rparr>"

text \<open>Environments over the snapshots, configured with \<open>ADDITIONAL_ENV_PARAMS\<close>.\<close>

definition nine_env :: env where
  "nine_env = \<lparr>params = ADDITIONAL_ENV_PARAMS, max_lanes = 1, time_counter = 0, k = nine_vehicles\<rparr>"

text \<open>The two vehicles of \<open>two_vehicles\<close>, both controllable.\<close>

definition two_rl :: vehicle_kernel where
  "two_rl = two_vehicles\<lparr>get_rl_ids := [''a'', ''h'']\<rparr>"

definition two_env :: env where
  "two_env = \<lparr>params = ADDITIONAL_ENV_PARAMS, max_lanes = 1, time_counter = 0, k = two_rl\<rparr>"

text \<open>
  The three values that one iteration of the loop of \<open>get_state\<close> writes for the vehicle
  \<open>rl_id\<close>: own speed, headway and leader speed, scaled.
\<close>

definition vehicle_obs :: "vehicle_kernel \<Rightarrow> veh_id \<Rightarrow> real list" where
  "vehicle_obs v rl_id =
     (let (lead_speed, headway) =
             (case get_leader v rl_id of
                None \<Rightarrow> (SPEED_SCALE, HEADWAY_SCALE)
              | Some l \<Rightarrow>
                  if l = [] then (SPEED_SCALE, HEADWAY_SCALE)
                  else (get_speed v l, get_headway v rl_id))
      in [get_speed v rl_id / SPEED_SCALE, headway / HEADWAY_SCALE, lead_speed / SPEED_SCALE])"

text \<open>
  The speeds of the selected vehicles, \<open>self.k.vehicle.get_speed(rl_ids)\<close>, in the order
  of \<open>get_sorted_rl_ids\<close>.
\<close>

definition rl_speeds :: "env \<Rightarrow> real list" where
  "rl_speeds e = map (get_speed (k e)) (get_sorted_rl_ids (k e))"

text \<open>
  The reward as the specification words it: per vehicle, the square of the target minus
  the squared distance of the speed from the target; averaged, and divided by the square
  of the target.
\<close>

definition spec_reward :: "real \<Rightarrow> real list \<Rightarrow> real" where
  "spec_reward target speeds =
     (sum_list (map (\<lambda>speed. target ^ 2 - (speed - target) ^ 2) speeds) / real (length speeds))
       / target ^ 2"


text \<open>
  An environment whose controllable vehicles and their speeds are given by a table, all at
  position 0, with the target velocity \<open>tv\<close> (\<open>None\<close>: the key is absent).
\<close>

definition reward_env :: "real option \<Rightarrow> (veh_id \<times> real) list \<Rightarrow> env" where
  "reward_env tv speeds =
     \<lparr>params = ADDITIONAL_ENV_PARAMS\<lparr>target_velocity := tv\<rparr>, max_lanes = 1, time_counter = 0,
      k = \<lparr>get_rl_ids = map fst speeds, get_ids = map fst speeds,
           get_speed = table_lookup speeds, get_x_by_id = table_lookup [],
           get_leader = map_of [], get_headway = table_lookup [],
           applied_accelerations = []\<rparr>\<rparr>"

text \<open>
  The term of one vehicle in the list that \<open>compute_reward\<close> averages, for the target
  velocity \<open>des_speed\<close>.
\<close>

definition reward_term :: "real \<Rightarrow> real \<Rightarrow> npfloat" where
  "reward_term des_speed speed =
     fl_pow2 (fl_sub (Finite des_speed) (fl_abs (fl_sub (Finite speed) (Finite des_speed))))"


section \<open>Vehicle selection (\<open>get_sorted_rl_ids\<close>)\<close>

lemma slice_last_rev: "0 < n \<Longrightarrow> slice_last n (rev xs) = rev (take n xs)"
  by (simp add: slice_last_def rev_take)

lemma get_sorted_rl_ids_eq:
  "get_sorted_rl_ids v = rev (take MAX_NUM_VEHS (sort_key (get_x_by_id v) (get_rl_ids v)))"
  by (simp add: get_sorted_rl_ids_def slice_last_rev MAX_NUM_VEHS_def)

lemma length_get_sorted_rl_ids:
  "length (get_sorted_rl_ids v) = min MAX_NUM_VEHS (length (get_rl_ids v))"
  by (simp add: get_sorted_rl_ids_eq min.commute)

text \<open>
  Claim C1, as stated, fails: of nine vehicles the selection keeps the eight furthest
  back and drops \<open>i\<close>, the one furthest along the road, not \<open>a\<close>, the one furthest back.
\<close>

theorem get_sorted_rl_ids_drops_front_counterexample:
  "get_sorted_rl_ids nine_vehicles = [''h'', ''g'', ''f'', ''e'', ''d'', ''c'', ''b'', ''a'']
   \<and> get_x_by_id nine_vehicles ''a'' = 1 \<and> get_x_by_id nine_vehicles ''i'' = 9"
  by (simp add: get_sorted_rl_ids_def nine_vehicles_def table_lookup_def slice_last_def MAX_NUM_VEHS_def)

lemma mset_dropped:
  "mset (get_rl_ids v) - mset (get_sorted_rl_ids v)
     = mset (drop MAX_NUM_VEHS (sort_key (get_x_by_id v) (get_rl_ids v)))"
proof -
  let ?s = "sort_key (get_x_by_id v) (get_rl_ids v)"
  have eq: "mset (get_rl_ids v) = mset (take MAX_NUM_VEHS ?s) + mset (drop MAX_NUM_VEHS ?s)"
    by (metis append_take_drop_id mset_append mset_sort)
  show ?thesis
    unfolding get_sorted_rl_ids_eq mset_rev by (subst eq) simp
qed

lemma mset_selected_subset:
  "mset (get_sorted_rl_ids v) \<subseteq># mset (get_rl_ids v)"
proof -
  let ?s = "sort_key (get_x_by_id v) (get_rl_ids v)"
  have eq: "mset (get_rl_ids v) = mset (take MAX_NUM_VEHS ?s) + mset (drop MAX_NUM_VEHS ?s)"
    by (metis append_take_drop_id mset_append mset_sort)
  show ?thesis
    unfolding get_sorted_rl_ids_eq mset_rev by (subst eq) simp
qed

lemma selected_behind_dropped:
  assumes "a \<in> set (get_sorted_rl_ids v)"
    and "b \<in># mset (get_rl_ids v) - mset (get_sorted_rl_ids v)"
  shows "get_x_by_id v a \<le> get_x_by_id v b"
proof -
  let ?s = "sort_key (get_x_by_id v) (get_rl_ids v)"
  have "sorted (map (get_x_by_id v) (take MAX_NUM_VEHS ?s @ drop MAX_NUM_VEHS ?s))"
    by simp
  then have "\<forall>x \<in> set (take MAX_NUM_VEHS ?s). \<forall>y \<in> set (drop MAX_NUM_VEHS ?s).
               get_x_by_id v x \<le> get_x_by_id v y"
    unfolding map_append sorted_append by auto
  moreover have "a \<in> set (take MAX_NUM_VEHS ?s)"
    using assms(1) by (simp add: get_sorted_rl_ids_eq)
  moreover have "b \<in> set (drop MAX_NUM_VEHS ?s)"
    using assms(2) by (simp add: mset_dropped)
  ultimately show ?thesis by blast
qed

lemma sorted_descending:
  "sorted (rev (map (get_x_by_id v) (get_sorted_rl_ids v)))"
  by (simp add: get_sorted_rl_ids_eq rev_map flip: take_map)

text \<open>
  Claim C1, amended. \<open>get_sorted_rl_ids\<close> returns at most \<open>MAX_NUM_VEHS\<close> of the live
  controllable vehicles, in descending order of position; every vehicle it keeps is at
  most as far along the road as every vehicle it drops, so it keeps the vehicles furthest
  back. With nine vehicles exactly one is dropped, and no vehicle is further along than
  that one.
\<close>

theorem get_sorted_rl_ids_keeps_rearmost:
  "length (get_sorted_rl_ids v) = min MAX_NUM_VEHS (length (get_rl_ids v))
   \<and> sorted (rev (map (get_x_by_id v) (get_sorted_rl_ids v)))
   \<and> mset (get_sorted_rl_ids v) \<subseteq># mset (get_rl_ids v)
   \<and> size (mset (get_rl_ids v) - mset (get_sorted_rl_ids v)) = length (get_rl_ids v) - MAX_NUM_VEHS
   \<and> (\<forall>a \<in> set (get_sorted_rl_ids v). \<forall>b \<in># mset (get_rl_ids v) - mset (get_sorted_rl_ids v).
         get_x_by_id v a \<le> get_x_by_id v b)
   \<and> (length (get_rl_ids v) = 9 \<longrightarrow>
         (\<exists>d. mset (get_rl_ids v) - mset (get_sorted_rl_ids v) = {#d#}
              \<and> (\<forall>a \<in> set (get_rl_ids v). get_x_by_id v a \<le> get_x_by_id v d)))"
proof (intro conjI impI)
  let ?D = "mset (get_rl_ids v) - mset (get_sorted_rl_ids v)"
  show "size ?D = length (get_rl_ids v) - MAX_NUM_VEHS"
    by (simp add: mset_dropped)
  show all: "\<forall>a \<in> set (get_sorted_rl_ids v). \<forall>b \<in># ?D. get_x_by_id v a \<le> get_x_by_id v b"
    using selected_behind_dropped by blast
  assume nine: "length (get_rl_ids v) = 9"
  then have "size ?D = 1"
    by (simp add: mset_dropped MAX_NUM_VEHS_def)
  then obtain d where d: "?D = {#d#}"
    using size_1_singleton_mset [of ?D] by auto
  have "get_x_by_id v a \<le> get_x_by_id v d" if "a \<in> set (get_rl_ids v)" for a
  proof (cases "a \<in> set (get_sorted_rl_ids v)")
    case True
    with all d show ?thesis by simp
  next
    case False
    have "mset (get_rl_ids v) = mset (get_sorted_rl_ids v) + ?D"
      using mset_selected_subset [of v] by simp
    then have "a \<in># mset (get_sorted_rl_ids v) + ?D"
      using that by (metis set_mset_mset)
    with False have "a \<in># ?D" by simp
    with d show ?thesis by simp
  qed
  with d show "\<exists>d. ?D = {#d#} \<and> (\<forall>a \<in> set (get_rl_ids v). get_x_by_id v a \<le> get_x_by_id v d)"
    by blast
qed (simp_all add: length_get_sorted_rl_ids sorted_descending mset_selected_subset)

theorem get_sorted_rl_ids_keeps_rearmost_witness:
  "length (get_sorted_rl_ids nine_vehicles) = 8
   \<and> ''a'' \<in> set (get_sorted_rl_ids nine_vehicles)
   \<and> mset (get_rl_ids nine_vehicles) - mset (get_sorted_rl_ids nine_vehicles) = {#''i''#}
   \<and> get_x_by_id nine_vehicles ''a'' \<le> get_x_by_id nine_vehicles ''i''"
proof -
  have s: "get_sorted_rl_ids nine_vehicles = [''h'', ''g'', ''f'', ''e'', ''d'', ''c'', ''b'', ''a'']"
    by (simp add: get_sorted_rl_ids_def nine_vehicles_def table_lookup_def slice_last_def
        MAX_NUM_VEHS_def)
  have r: "get_rl_ids nine_vehicles = [''a'', ''b'', ''c'', ''d'', ''e'', ''f'', ''g'', ''h'', ''i'']"
    by (simp add: nine_vehicles_def)
  have d: "mset (get_rl_ids nine_vehicles) - mset (get_sorted_rl_ids nine_vehicles) = {#''i''#}"
    unfolding s r by simp
  from get_sorted_rl_ids_keeps_rearmost [of nine_vehicles]
  have "get_x_by_id nine_vehicles ''a'' \<le> get_x_by_id nine_vehicles ''i''"
    unfolding d by (simp add: s)
  with s d show ?thesis by simp
qed

section \<open>Observation construction (\<open>get_state\<close>)\<close>

lemma length_vehicle_obs [simp]: "length (vehicle_obs v rl_id) = 3"
  by (simp add: vehicle_obs_def split: option.split prod.split)

lemma np_set_slice_triple:
  "np_set_slice a lo (lo + 3) [x, y, z] =
     (if lo + 3 \<le> length a then Inr (take lo a @ [x, y, z] @ drop (lo + 3) a)
      else Inl ValueError)"
  by (auto simp add: np_set_slice_def Let_def min_def max_def)

lemma get_state_loop_step:
  "get_state_loop v i (rl_id # rest) a =
     (if 3 * i + 3 \<le> length a
      then get_state_loop v (i + 1) rest (take (3 * i) a @ vehicle_obs v rl_id @ drop (3 * i + 3) a)
      else Inl ValueError)"
proof -
  have "\<exists>x y z. vehicle_obs v rl_id = [x, y, z]"
    by (simp add: vehicle_obs_def split: option.split)
  then obtain x y z where t: "vehicle_obs v rl_id = [x, y, z]"
    by blast
  have "get_state_loop v i (rl_id # rest) a =
          (case np_set_slice a (i * 3) ((i + 1) * 3) (vehicle_obs v rl_id) of
             Inl err \<Rightarrow> Inl err | Inr a' \<Rightarrow> get_state_loop v (i + 1) rest a')"
    by (cases "get_leader v rl_id") (simp_all add: vehicle_obs_def)
  moreover have "i * 3 = 3 * i" and "(i + 1) * 3 = 3 * i + 3"
    by simp_all
  ultimately show ?thesis
    unfolding t by (simp only: np_set_slice_triple split: if_split) simp
qed

lemma length_concat_obs [simp]:
  "length (concat (map (vehicle_obs v) ids)) = 3 * length ids"
  by (induction ids) simp_all

lemma get_state_loop_eq:
  "get_state_loop v i ids a =
     (if ids = [] \<or> 3 * (i + length ids) \<le> length a
      then Inr (take (3 * i) a @ concat (map (vehicle_obs v) ids) @ drop (3 * (i + length ids)) a)
      else Inl ValueError)"
proof (induction ids arbitrary: i a)
  case Nil
  show ?case by simp
next
  case (Cons rl_id rest)
  show ?case
  proof (cases "3 * i + 3 \<le> length a")
    case False
    then show ?thesis
      unfolding get_state_loop_step by simp
  next
    case True
    let ?a = "take (3 * i) a @ vehicle_obs v rl_id @ drop (3 * i + 3) a"
    have len: "length ?a = length a"
      using True by simp
    have tk: "take (3 * (i + 1)) ?a = take (3 * i) a @ vehicle_obs v rl_id"
      using True by simp
    have dr: "drop (3 * (i + 1 + length rest)) ?a = drop (3 * (i + 1 + length rest)) a"
      using True by (simp add: ac_simps)
    show ?thesis
    proof (cases "3 * (i + length (rl_id # rest)) \<le> length a")
      case le: True
      then show ?thesis
        unfolding get_state_loop_step Cons.IH len tk dr using True by simp
    next
      case gt: False
      with True have "rest \<noteq> []" by auto
      with gt show ?thesis
        unfolding get_state_loop_step Cons.IH len tk dr using True by simp
    qed
  qed
qed

lemma get_state_eq:
  "get_state e =
     (let ids = get_sorted_rl_ids (k e); n = observation_space_shape e
      in if ids = [] \<or> 3 * length ids \<le> n
         then Inr (concat (map (vehicle_obs (k e)) ids) @ replicate (n - 3 * length ids) 0)
         else Inl ValueError)"
  by (simp add: get_state_def get_state_loop_eq Let_def)

lemma nth_concat_obs:
  "i < length ids \<Longrightarrow> c < 3 \<Longrightarrow>
     concat (map (vehicle_obs v) ids) ! (3 * i + c) = vehicle_obs v (ids ! i) ! c"
proof (induction ids arbitrary: i)
  case Nil
  then show ?case by simp
next
  case (Cons x xs)
  show ?case
  proof (cases i)
    case 0
    with Cons.prems show ?thesis by (simp add: nth_append)
  next
    case (Suc j)
    with Cons.prems have "concat (map (vehicle_obs v) xs) ! (3 * j + c) = vehicle_obs v (xs ! j) ! c"
      by (intro Cons.IH) simp_all
    with Suc show ?thesis by (simp add: nth_append)
  qed
qed


lemma observation_space_shape_lead:
  "lead_obs (params e) = Some True \<Longrightarrow> observation_space_shape e = 24"
  by (simp add: observation_space_shape_def MAX_NUM_VEHS_def)

lemma length_get_sorted_rl_ids_le: "length (get_sorted_rl_ids v) \<le> 8"
  by (simp add: length_get_sorted_rl_ids MAX_NUM_VEHS_def)

lemma get_state_lead:
  assumes "lead_obs (params e) = Some True"
  shows "get_state e =
           Inr (concat (map (vehicle_obs (k e)) (get_sorted_rl_ids (k e)))
                @ replicate (24 - 3 * length (get_sorted_rl_ids (k e))) 0)"
  using length_get_sorted_rl_ids_le [of "k e"]
  by (simp add: get_state_eq Let_def observation_space_shape_lead [OF assms])

text \<open>
  Claim C5. In lead-observation mode \<open>get_state\<close> returns, for every number of live
  controllable vehicles, a vector of length 24 = 3 * \<open>MAX_NUM_VEHS\<close>, and with \<open>n\<close>
  selected vehicles every entry at index \<open>3 * n\<close> and beyond is zero.
\<close>

theorem get_state_lead_obs_shape:
  assumes "lead_obs (params e) = Some True"
  shows "\<exists>obs. get_state e = Inr obs \<and> length obs = 3 * MAX_NUM_VEHS \<and> length obs = 24
           \<and> (\<forall>j. 3 * length (get_sorted_rl_ids (k e)) \<le> j \<and> j < length obs \<longrightarrow> obs ! j = 0)"
proof -
  let ?ids = "get_sorted_rl_ids (k e)"
  let ?obs = "concat (map (vehicle_obs (k e)) ?ids) @ replicate (24 - 3 * length ?ids) 0"
  have le: "length ?ids \<le> 8"
    by (rule length_get_sorted_rl_ids_le)
  have "get_state e = Inr ?obs"
    by (rule get_state_lead [OF assms])
  moreover from le have len: "length ?obs = 24"
    by simp
  moreover have "?obs ! j = 0" if "3 * length ?ids \<le> j" and "j < length ?obs" for j
    using that le by (simp add: nth_append)
  ultimately show ?thesis
    by (simp add: MAX_NUM_VEHS_def)
qed

theorem get_state_lead_obs_shape_witness:
  "get_state two_env = Inr ([3 / 25, 1, 1, 2 / 25, 1 / 100, 3 / 25] @ replicate 18 0)
   \<and> length (get_sorted_rl_ids (k two_env)) = 2"
proof -
  have ids: "get_sorted_rl_ids (k two_env) = [''h'', ''a'']"
    by (simp add: get_sorted_rl_ids_def two_env_def two_rl_def two_vehicles_def table_lookup_def
        slice_last_def MAX_NUM_VEHS_def)
  have l: "lead_obs (params two_env) = Some True"
    by (simp add: two_env_def ADDITIONAL_ENV_PARAMS_def)
  from get_state_lead_obs_shape [OF l]
  obtain obs where obs: "get_state two_env = Inr obs" and "length obs = 24"
    and z: "\<forall>j. 3 * length (get_sorted_rl_ids (k two_env)) \<le> j \<and> j < length obs \<longrightarrow> obs ! j = 0"
    by blast
  have "get_state two_env = Inr ([3 / 25, 1, 1, 2 / 25, 1 / 100, 3 / 25] @ replicate 18 0)"
    by (simp add: get_state_lead [OF l] ids)
       (simp add: vehicle_obs_def two_env_def two_rl_def two_vehicles_def table_lookup_def
          SPEED_SCALE_def HEADWAY_SCALE_def)
  with ids show ?thesis by simp
qed

text \<open>
  Claim C6. For a selected vehicle whose leader query returns the empty string or
  \<open>None\<close>, the headway entry and the leader-speed entry of its triple are
  \<open>HEADWAY_SCALE / HEADWAY_SCALE\<close> and \<open>SPEED_SCALE / SPEED_SCALE\<close>, that is 1, hence not
  zero.
\<close>

theorem get_state_no_leader_sentinel:
  assumes "get_state e = Inr obs"
    and "i < length (get_sorted_rl_ids (k e))"
    and "get_leader (k e) (get_sorted_rl_ids (k e) ! i) = None
         \<or> get_leader (k e) (get_sorted_rl_ids (k e) ! i) = Some []"
  shows "obs ! (3 * i + 1) = HEADWAY_SCALE / HEADWAY_SCALE
         \<and> obs ! (3 * i + 2) = SPEED_SCALE / SPEED_SCALE
         \<and> obs ! (3 * i + 1) = 1 \<and> obs ! (3 * i + 2) = 1"
proof -
  let ?ids = "get_sorted_rl_ids (k e)"
  let ?c = "concat (map (vehicle_obs (k e)) ?ids)"
  from assms(1) have obs: "obs = ?c @ replicate (observation_space_shape e - 3 * length ?ids) 0"
    by (simp add: get_state_eq Let_def split: if_splits)
  have t: "vehicle_obs (k e) (?ids ! i) =
             [get_speed (k e) (?ids ! i) / SPEED_SCALE, HEADWAY_SCALE / HEADWAY_SCALE,
              SPEED_SCALE / SPEED_SCALE]"
    using assms(3) by (auto simp add: vehicle_obs_def)
  have "obs ! (3 * i + 1) = vehicle_obs (k e) (?ids ! i) ! 1"
    using assms(2) nth_concat_obs [of i ?ids 1 "k e"] by (simp add: obs nth_append)
  moreover have "obs ! (3 * i + 2) = vehicle_obs (k e) (?ids ! i) ! 2"
    using assms(2) nth_concat_obs [of i ?ids 2 "k e"] by (simp add: obs nth_append)
  ultimately show ?thesis
    by (simp add: t SPEED_SCALE_def HEADWAY_SCALE_def)
qed

theorem get_state_no_leader_sentinel_witness:
  "get_sorted_rl_ids (k two_env) ! 0 = ''h'' \<and> get_leader (k two_env) ''h'' = Some []
   \<and> get_state two_env = Inr ([3 / 25, 1, 1, 2 / 25, 1 / 100, 3 / 25] @ replicate 18 0)"
proof -
  have ids: "get_sorted_rl_ids (k two_env) = [''h'', ''a'']"
    by (simp add: get_sorted_rl_ids_def two_env_def two_rl_def two_vehicles_def table_lookup_def
        slice_last_def MAX_NUM_VEHS_def)
  have l: "lead_obs (params two_env) = Some True"
    by (simp add: two_env_def ADDITIONAL_ENV_PARAMS_def)
  have s: "get_state two_env = Inr ([3 / 25, 1, 1, 2 / 25, 1 / 100, 3 / 25] @ replicate 18 0)"
    by (simp add: get_state_lead [OF l] ids)
       (simp add: vehicle_obs_def two_env_def two_rl_def two_vehicles_def table_lookup_def
          SPEED_SCALE_def HEADWAY_SCALE_def)
  have ld: "get_leader (k two_env) ''h'' = Some []"
    by (simp add: two_env_def two_rl_def two_vehicles_def)
  have "([3 / 25, 1, 1, 2 / 25, 1 / 100, 3 / 25] @ replicate 18 (0::real)) ! (3 * 0 + 1) = 1"
    using get_state_no_leader_sentinel [OF s, of 0] ids ld by simp
  with ids s ld show ?thesis by simp
qed

section \<open>Action application (\<open>_apply_rl_actions\<close>)\<close>

lemma apply_rl_actions_loop_eq:
  "apply_rl_actions_loop acts i ids accels veh_ids =
     (if ids = [] \<or> i + length ids \<le> length acts
      then Inr (accels @ take (length ids) (drop i acts), veh_ids @ ids)
      else Inl IndexError)"
proof (induction ids arbitrary: i accels veh_ids)
  case Nil
  show ?case by simp
next
  case (Cons rl_id rest)
  show ?case
  proof (cases "i < length acts")
    case False
    then show ?thesis by simp
  next
    case True
    then have "acts ! i # take (length rest) (drop (Suc i) acts)
                 = take (Suc (length rest)) (drop i acts)"
      by (simp flip: Cons_nth_drop_Suc)
    with True show ?thesis
      by (auto simp add: Cons.IH)
  qed
qed

lemma apply_rl_actions_eq:
  "apply_rl_actions e (Some acts) =
     (let rl_ids = get_sorted_rl_ids (k e)
      in if length rl_ids \<le> length acts
         then Inr (e\<lparr>k := apply_acceleration rl_ids (take (length rl_ids) acts) (k e)\<rparr>)
         else Inl IndexError)"
  by (auto simp add: apply_rl_actions_def apply_rl_actions_loop_eq Let_def)

text \<open>
  Claim C10. With more than \<open>MAX_NUM_VEHS\<close> live controllable vehicles,
  \<open>get_sorted_rl_ids\<close> returns exactly 8 identifiers; \<open>get_state\<close> in lead-observation
  mode then returns without a failed slice assignment, with its 24 slots; and
  \<open>_apply_rl_actions\<close> reads only the first 8 entries of the action vector: it succeeds on
  every vector of at least 8 entries and its result is the one for the first 8 entries.
\<close>

theorem more_than_max_vehicles_in_bounds:
  assumes "MAX_NUM_VEHS < length (get_rl_ids (k e))"
  shows "length (get_sorted_rl_ids (k e)) = 8
         \<and> (lead_obs (params e) = Some True \<longrightarrow> (\<exists>obs. get_state e = Inr obs \<and> length obs = 24))
         \<and> (8 \<le> length acts \<longrightarrow>
              apply_rl_actions e (Some acts) =
                Inr (e\<lparr>k := apply_acceleration (get_sorted_rl_ids (k e)) (take 8 acts) (k e)\<rparr>))
         \<and> apply_rl_actions e (Some acts) = apply_rl_actions e (Some (take 8 acts))"
proof -
  from assms have len: "length (get_sorted_rl_ids (k e)) = 8"
    by (simp add: length_get_sorted_rl_ids MAX_NUM_VEHS_def)
  have "\<exists>obs. get_state e = Inr obs \<and> length obs = 24" if "lead_obs (params e) = Some True"
    using len by (simp add: get_state_lead [OF that])
  moreover have "apply_rl_actions e (Some acts) = apply_rl_actions e (Some (take 8 acts))"
    by (simp add: apply_rl_actions_eq len Let_def)
  ultimately show ?thesis
    using len by (simp add: apply_rl_actions_eq Let_def)
qed

theorem more_than_max_vehicles_in_bounds_witness:
  "MAX_NUM_VEHS < length (get_rl_ids (k nine_env))
   \<and> length (get_sorted_rl_ids (k nine_env)) = 8
   \<and> apply_rl_actions nine_env (Some [1, 1, 1, 1, 1, 1, 1, 1, 5])
       = apply_rl_actions nine_env (Some [1, 1, 1, 1, 1, 1, 1, 1])"
proof -
  have h: "MAX_NUM_VEHS < length (get_rl_ids (k nine_env))"
    by (simp add: nine_env_def nine_vehicles_def MAX_NUM_VEHS_def)
  from more_than_max_vehicles_in_bounds [OF h, of "[1, 1, 1, 1, 1, 1, 1, 1, 5]"]
  have l: "length (get_sorted_rl_ids (k nine_env)) = 8"
    and a: "apply_rl_actions nine_env (Some [1, 1, 1, 1, 1, 1, 1, 1, 5])
              = apply_rl_actions nine_env (Some (take 8 [1, 1, 1, 1, 1, 1, 1, 1, 5]))"
    by blast+
  from a have "apply_rl_actions nine_env (Some [1, 1, 1, 1, 1, 1, 1, 1, 5])
                 = apply_rl_actions nine_env (Some [1, 1, 1, 1, 1, 1, 1, 1])"
    by simp
  with h l show ?thesis by blast
qed

section \<open>Rounding to float64\<close>

lemma find_binade_range: "- 1022 \<le> find_binade n x \<and> find_binade n x \<le> int n - 1022"
  by (induction n) auto

lemma find_binade_lower: "find_binade n x \<noteq> - 1022 \<Longrightarrow> 2 powi (find_binade n x) \<le> \<bar>x\<bar>"
  by (induction n) (auto split: if_splits)

lemma find_binade_upper:
  "find_binade n x < int n - 1022 \<Longrightarrow> \<bar>x\<bar> < 2 powi (find_binade n x + 1)"
proof (induction n)
  case 0
  then show ?case by simp
next
  case (Suc n)
  show ?case
  proof (cases "2 powi (int (Suc n) - 1022) \<le> \<bar>x\<bar>")
    case True
    with Suc.prems show ?thesis by simp
  next
    case False
    then have f: "find_binade (Suc n) x = find_binade n x" by simp
    show ?thesis
    proof (cases "find_binade n x < int n - 1022")
      case True
      with Suc.IH f show ?thesis by simp
    next
      case False
      with find_binade_range [of n x] have "find_binade n x = int n - 1022" by linarith
      with f \<open>\<not> 2 powi (int (Suc n) - 1022) \<le> \<bar>x\<bar>\<close> show ?thesis
        by (simp add: add.commute)
    qed
  qed
qed

lemma binade_range: "- 1022 \<le> binade x" "binade x \<le> 1023"
  using find_binade_range [of 2045 x] by (simp_all add: binade_def)

lemma binade_lower: "binade x \<noteq> - 1022 \<Longrightarrow> 2 powi (binade x) \<le> \<bar>x\<bar>"
  unfolding binade_def by (rule find_binade_lower)

lemma binade_upper: "binade x \<noteq> 1023 \<Longrightarrow> \<bar>x\<bar> < 2 powi (binade x + 1)"
  unfolding binade_def using find_binade_range [of 2045 x]
  by (intro find_binade_upper) simp

lemma binade_mono: "\<bar>x\<bar> \<le> \<bar>y\<bar> \<Longrightarrow> binade x \<le> binade y"
proof (rule ccontr)
  assume le: "\<bar>x\<bar> \<le> \<bar>y\<bar>" and "\<not> binade x \<le> binade y"
  then have lt: "binade y < binade x" by simp
  with binade_range [of y] have "binade x \<noteq> - 1022" by linarith
  then have "2 powi (binade x) \<le> \<bar>x\<bar>" by (rule binade_lower)
  moreover from lt binade_range [of x] have "binade y \<noteq> 1023" by linarith
  then have "\<bar>y\<bar> < 2 powi (binade y + 1)" by (rule binade_upper)
  moreover from lt have "(2::real) powi (binade y + 1) \<le> 2 powi (binade x)"
    by (intro power_int_increasing) simp_all
  ultimately show False using le by linarith
qed


lemma binade_subnormal: "\<bar>x\<bar> < 2 powi (- 1021) \<Longrightarrow> binade x = - 1022"
proof (rule ccontr)
  assume a: "\<bar>x\<bar> < 2 powi (- 1021)" and "binade x \<noteq> - 1022"
  then have "2 powi (binade x) \<le> \<bar>x\<bar>" and "- 1021 \<le> binade x"
    using binade_lower binade_range(1) [of x] by auto
  moreover then have "(2::real) powi (- 1021) \<le> 2 powi (binade x)"
    by (intro power_int_increasing) simp_all
  ultimately show False using a by linarith
qed

lemma binade_minus [simp]: "binade (- x) = binade x"
proof -
  have "find_binade n (- x) = find_binade n x" for n
    by (induction n) simp_all
  then show ?thesis by (simp add: binade_def)
qed

lemma round_half_even_of_int [simp]: "round_half_even (of_int n) = n"
  by (simp add: round_half_even_def)

lemma round_half_even_mono: "x \<le> y \<Longrightarrow> round_half_even x \<le> round_half_even y"
proof -
  assume le: "x \<le> y"
  then have "\<lfloor>x\<rfloor> \<le> \<lfloor>y\<rfloor>" by (rule floor_mono)
  then consider "\<lfloor>x\<rfloor> = \<lfloor>y\<rfloor>" | "\<lfloor>x\<rfloor> + 1 \<le> \<lfloor>y\<rfloor>" by linarith
  then show ?thesis
  proof cases
    case 1
    with le show ?thesis by (auto simp add: round_half_even_def Let_def)
  next
    case 2
    have "round_half_even x \<le> \<lfloor>x\<rfloor> + 1" and "\<lfloor>y\<rfloor> \<le> round_half_even y"
      by (auto simp add: round_half_even_def Let_def)
    with 2 show ?thesis by linarith
  qed
qed

lemma round_half_even_minus: "round_half_even (- x) = - round_half_even x"
proof (cases "x = of_int \<lfloor>x\<rfloor>")
  case True
  then obtain n where "x = of_int n" ..
  then have "round_half_even (- x) = round_half_even (of_int (- n))" by simp
  also have "\<dots> = - n" by (rule round_half_even_of_int)
  finally show ?thesis using \<open>x = of_int n\<close> by simp
next
  case False
  then have lt: "of_int \<lfloor>x\<rfloor> < x" using of_int_floor_le [of x] by linarith
  have fl: "\<lfloor>- x\<rfloor> = - \<lfloor>x\<rfloor> - 1"
    using lt by (intro floor_unique) (auto, linarith)
  show ?thesis
    using lt by (auto simp add: round_half_even_def Let_def fl)
qed

lemma round64_val_minus: "round64_val (- x) = - round64_val x"
  by (simp add: round64_val_def Let_def round_half_even_minus)

lemma round64_val_zero [simp]: "round64_val 0 = 0"
  by (simp add: round64_val_def round_half_even_def)

lemma round64_val_le_binade_top:
  assumes "0 \<le> x" and "binade x \<noteq> 1023"
  shows "round64_val x \<le> 2 powi (binade x + 1)"
proof -
  let ?u = "(2::real) powi (binade x - 52)"
  have u: "0 < ?u" by simp
  from assms have "x < 2 powi (binade x + 1)"
    using binade_upper [of x] by simp
  then have "x / ?u \<le> 2 powi (binade x + 1) / ?u"
    using u by (intro divide_right_mono) simp_all
  also have "2 powi (binade x + 1) / ?u = (2::real) powi ((binade x + 1) - (binade x - 52))"
    by (subst power_int_diff) simp_all
  also have "\<dots> = of_int (2 ^ 53)" by simp
  finally have "round_half_even (x / ?u) \<le> round_half_even (of_int (2 ^ 53))"
    by (rule round_half_even_mono)
  then have "round_half_even (x / ?u) \<le> 2 ^ 53" by (simp only: round_half_even_of_int)
  then have "real_of_int (round_half_even (x / ?u)) \<le> 2 ^ 53"
    by (metis of_int_le_iff of_int_numeral of_int_power)
  then have "real_of_int (round_half_even (x / ?u)) * ?u \<le> 2 ^ 53 * ?u"
    using u by (intro mult_right_mono) simp_all
  also have "2 ^ 53 * ?u = (2::real) powi (53 + (binade x - 52))"
    by (subst power_int_add) simp_all
  finally show ?thesis by (simp add: round64_val_def Let_def add.commute)
qed

lemma round64_val_ge_binade_bottom:
  assumes "0 \<le> y" and "binade y \<noteq> - 1022"
  shows "2 powi (binade y) \<le> round64_val y"
proof -
  let ?u = "(2::real) powi (binade y - 52)"
  have u: "0 < ?u" by simp
  from assms have "2 powi (binade y) \<le> y"
    using binade_lower [of y] by simp
  then have "2 powi (binade y) / ?u \<le> y / ?u"
    using u by (intro divide_right_mono) simp_all
  moreover have "2 powi (binade y) / ?u = (2::real) powi (binade y - (binade y - 52))"
    by (subst power_int_diff) simp_all
  moreover have "(2::real) powi (binade y - (binade y - 52)) = of_int (2 ^ 52)" by simp
  ultimately have "round_half_even (of_int (2 ^ 52)) \<le> round_half_even (y / ?u)"
    by (intro round_half_even_mono) simp
  then have "2 ^ 52 \<le> round_half_even (y / ?u)" by (simp only: round_half_even_of_int)
  then have "2 ^ 52 \<le> real_of_int (round_half_even (y / ?u))"
    by (metis of_int_le_iff of_int_numeral of_int_power)
  then have "2 ^ 52 * ?u \<le> real_of_int (round_half_even (y / ?u)) * ?u"
    using u by (intro mult_right_mono) simp_all
  moreover have "2 ^ 52 * ?u = (2::real) powi (52 + (binade y - 52))"
    by (subst power_int_add) simp_all
  moreover have "52 + (binade y - 52) = binade y" by simp
  ultimately have "2 powi (binade y) \<le> real_of_int (round_half_even (y / ?u)) * ?u"
    by (simp only:)
  then show ?thesis by (simp only: round64_val_def Let_def)
qed

lemma round64_val_mono_nonneg:
  assumes "0 \<le> x" and "x \<le> y"
  shows "round64_val x \<le> round64_val y"
proof -
  from assms have y: "0 \<le> y" by simp
  from assms have "binade x \<le> binade y" by (intro binade_mono) simp
  then consider "binade x = binade y" | "binade x < binade y" by linarith
  then show ?thesis
  proof cases
    case 1
    let ?u = "(2::real) powi (binade y - 52)"
    have "x / ?u \<le> y / ?u" using assms(2) by (intro divide_right_mono) simp_all
    then have "round_half_even (x / ?u) \<le> round_half_even (y / ?u)"
      by (rule round_half_even_mono)
    then have "real_of_int (round_half_even (x / ?u)) * ?u
                 \<le> real_of_int (round_half_even (y / ?u)) * ?u"
      by (intro mult_right_mono) simp_all
    then show ?thesis
      by (simp add: round64_val_def Let_def 1)
  next
    case 2
    with binade_range [of x] binade_range [of y]
    have "binade x \<noteq> 1023" and "binade y \<noteq> - 1022" by linarith+
    then have "round64_val x \<le> 2 powi (binade x + 1)" and "2 powi (binade y) \<le> round64_val y"
      using assms(1) y by (simp_all add: round64_val_le_binade_top round64_val_ge_binade_bottom)
    moreover from 2 have "(2::real) powi (binade x + 1) \<le> 2 powi (binade y)"
      by (intro power_int_increasing) simp_all
    ultimately show ?thesis by linarith
  qed
qed

lemma round64_val_nonneg: "0 \<le> x \<Longrightarrow> 0 \<le> round64_val x"
  using round64_val_mono_nonneg [of 0 x] by simp

lemma round64_val_mono: "x \<le> y \<Longrightarrow> round64_val x \<le> round64_val y"
proof -
  assume le: "x \<le> y"
  consider "0 \<le> x" | "x < 0" "0 \<le> y" | "y < 0" by linarith
  then show ?thesis
  proof cases
    case 1
    then show ?thesis using le by (rule round64_val_mono_nonneg)
  next
    case 2
    then have "0 \<le> round64_val (- x)" and "0 \<le> round64_val y"
      by (simp_all add: round64_val_nonneg)
    then show ?thesis by (simp add: round64_val_minus)
  next
    case 3
    with le have "round64_val (- y) \<le> round64_val (- x)"
      by (intro round64_val_mono_nonneg) simp_all
    then show ?thesis by (simp add: round64_val_minus)
  qed
qed

lemma round64_val_exact:
  assumes "x / 2 powi (binade x - 52) = of_int n"
  shows "round64_val x = x"
proof -
  have "round64_val x = of_int n * 2 powi (binade x - 52)"
    by (simp add: round64_val_def Let_def assms)
  also have "\<dots> = x"
    using assms by (simp add: field_simps)
  finally show ?thesis .
qed

lemma round64_val_representable:
  assumes "x = of_int m * 2 powi j" and "\<bar>m\<bar> < 2 ^ 53" and "- 1074 \<le> j"
  shows "round64_val x = x"
proof -
  have le: "binade x - 52 \<le> j"
  proof (cases "binade x = - 1022")
    case True
    with assms(3) show ?thesis by simp
  next
    case False
    then have "2 powi (binade x) \<le> \<bar>x\<bar>" by (rule binade_lower)
    also have "\<bar>x\<bar> = \<bar>real_of_int m\<bar> * 2 powi j"
      by (simp add: assms(1) abs_mult)
    also have "\<bar>real_of_int m\<bar> < 2 ^ 53"
      using assms(2) by (metis of_int_abs of_int_less_iff of_int_numeral of_int_power)
    then have "\<bar>real_of_int m\<bar> * 2 powi j < 2 ^ 53 * 2 powi j"
      by (intro mult_strict_right_mono) simp_all
    also have "2 ^ 53 * 2 powi j = (2::real) powi (53 + j)"
      by (subst power_int_add) simp_all
    finally have lt: "(2::real) powi (binade x) < 2 powi (53 + j)" .
    have "binade x < 53 + j"
    proof (rule ccontr)
      assume "\<not> binade x < 53 + j"
      then have "(2::real) powi (53 + j) \<le> 2 powi (binade x)"
        by (intro power_int_increasing) simp_all
      with lt show False by linarith
    qed
    then show ?thesis by simp
  qed
  define d where "d = nat (j - (binade x - 52))"
  with le have j: "j = (binade x - 52) + int d" by simp
  have "x / 2 powi (binade x - 52) = of_int m * (2 powi j / 2 powi (binade x - 52))"
    by (simp add: assms(1))
  also have "(2::real) powi j / 2 powi (binade x - 52) = 2 powi (j - (binade x - 52))"
    by (subst power_int_diff) simp_all
  also have "\<dots> = 2 ^ d" using le by (simp add: d_def power_int_nonneg_exp)
  also have "of_int m * 2 ^ d = real_of_int (m * 2 ^ d)" by simp
  finally show ?thesis by (rule round64_val_exact)
qed

lemma round64_not_NaN [simp]: "round64 x \<noteq> NaN"
  by (simp add: round64_def Let_def)

lemma round64_zero [simp]: "round64 0 = Finite 0"
  by (simp add: round64_def)

lemma round64_mono: "x \<le> y \<Longrightarrow> fl_le (round64 x) (round64 y)"
  using round64_val_mono [of x y] by (auto simp add: round64_def Let_def)

lemma round64_nonneg: "0 \<le> x \<Longrightarrow> fl_le (Finite 0) (round64 x)"
  using round64_mono [of 0 x] by simp

lemma round64_minus: "round64 (- x) = fl_neg (round64 x)"
  by (auto simp add: round64_def Let_def round64_val_minus)

lemma round64_Finite_val: "round64 x = Finite y \<Longrightarrow> y = round64_val x \<and> \<bar>y\<bar> < 2 ^ 1024"
  by (auto simp add: round64_def Let_def split: if_splits)

lemma round64_representable:
  assumes "x = of_int m * 2 powi j" and "\<bar>m\<bar> < 2 ^ 53" and "- 1074 \<le> j" and "\<bar>x\<bar> < 2 ^ 1024"
  shows "round64 x = Finite x"
  using assms(4) by (auto simp add: round64_def Let_def round64_val_representable [OF assms(1-3)])

lemma round64_val_bounded:
  assumes "\<bar>round64_val x\<bar> < 2 ^ 1024"
  shows "\<bar>round_half_even (x / 2 powi (binade x - 52))\<bar> \<le> 2 ^ 53"
proof -
  let ?u = "(2::real) powi (binade x - 52)"
  let ?n = "round_half_even (x / ?u)"
  have u: "0 < ?u" by simp
  show ?thesis
  proof (cases "binade x = 1023")
    case True
    have "\<bar>real_of_int ?n\<bar> * ?u < 2 ^ 1024"
      using assms by (simp add: round64_val_def Let_def abs_mult)
    moreover have "?u = 2 ^ 971" by (simp add: True)
    ultimately have "\<bar>real_of_int ?n\<bar> * 2 ^ 971 < 2 ^ 53 * 2 ^ 971" by simp
    then have "\<bar>real_of_int ?n\<bar> < 2 ^ 53"
      by (simp only: mult_less_cancel_right) simp
    then have "\<bar>?n\<bar> < 2 ^ 53"
      by (metis of_int_abs of_int_less_iff of_int_numeral of_int_power)
    then show ?thesis by simp
  next
    case False
    have neg: "\<bar>round64_val x\<bar> = round64_val \<bar>x\<bar>"
      using round64_val_nonneg [of x] round64_val_nonneg [of "- x"]
      by (cases "0 \<le> x") (simp_all add: round64_val_minus abs_if)
    have "round64_val \<bar>x\<bar> \<le> 2 powi (binade \<bar>x\<bar> + 1)"
      using False by (intro round64_val_le_binade_top) (simp_all add: abs_if)
    moreover have b: "binade \<bar>x\<bar> = binade x" by (simp add: abs_if)
    ultimately have "\<bar>real_of_int ?n\<bar> * ?u \<le> 2 powi (binade x + 1)"
      using neg by (simp add: round64_val_def Let_def abs_mult)
    also have "(2::real) powi (binade x + 1) = 2 ^ 53 * ?u"
    proof -
      have "2 ^ 53 * ?u = (2::real) powi (53 + (binade x - 52))"
        by (subst power_int_add) simp_all
      then show ?thesis by (simp add: add.commute)
    qed
    finally have "\<bar>real_of_int ?n\<bar> \<le> 2 ^ 53"
      using u by (simp only: mult_le_cancel_right)
    then show ?thesis
      by (metis of_int_abs of_int_le_iff of_int_numeral of_int_power)
  qed
qed

lemma round64_idem:
  assumes "round64 x = Finite y"
  shows "round64 y = Finite y"
proof -
  let ?j = "binade x - 52"
  let ?n = "round_half_even (x / 2 powi ?j)"
  from assms have y: "y = round64_val x" and fin: "\<bar>y\<bar> < 2 ^ 1024"
    using round64_Finite_val by blast+
  then have yn: "y = of_int ?n * 2 powi ?j"
    by (simp add: round64_val_def Let_def)
  have j: "- 1074 \<le> ?j" using binade_range(1) [of x] by simp
  from fin y have "\<bar>?n\<bar> \<le> 2 ^ 53" by (intro round64_val_bounded) simp
  then consider "\<bar>?n\<bar> < 2 ^ 53" | "?n = 2 ^ 53" | "?n = - (2 ^ 53)" by linarith
  then show ?thesis
  proof cases
    case 1
    with yn j fin show ?thesis by (intro round64_representable [of y ?n ?j]) simp_all
  next
    case 2
    have "y = of_int 1 * 2 powi (53 + ?j)"
      unfolding yn 2 by (subst power_int_add) simp_all
    with j fin show ?thesis by (intro round64_representable [of y 1 "53 + ?j"]) simp_all
  next
    case 3
    have "y = of_int (- 1) * 2 powi (53 + ?j)"
      unfolding yn 3 by (subst power_int_add) simp_all
    with j fin show ?thesis by (intro round64_representable [of y "- 1" "53 + ?j"]) simp_all
  qed
qed

lemma fl_le_refl: "a \<noteq> NaN \<Longrightarrow> fl_le a a"
  by (cases a) simp_all

lemma fl_le_trans: "fl_le a b \<Longrightarrow> fl_le b c \<Longrightarrow> fl_le a c"
  by (cases a; cases b; cases c) simp_all



lemma fl_le_not_NaN: "fl_le a b \<Longrightarrow> a \<noteq> NaN \<and> b \<noteq> NaN"
  by (cases a; cases b) simp_all









lemma round_half_even_eval:
  assumes "of_int n - 1 / 2 < x" and "x < of_int n + 1 / 2"
  shows "round_half_even x = n"
proof -
  from assms have "\<lfloor>x\<rfloor> = n \<or> \<lfloor>x\<rfloor> = n - 1"
    by linarith
  then show ?thesis
  proof
    assume "\<lfloor>x\<rfloor> = n"
    with assms show ?thesis by (simp add: round_half_even_def)
  next
    assume "\<lfloor>x\<rfloor> = n - 1"
    with assms show ?thesis by (simp add: round_half_even_def)
  qed
qed



section \<open>Reward (\<open>compute_reward\<close>)\<close>

lemma round64_Finite: "\<bar>round64_val x\<bar> < 2 ^ 1024 \<Longrightarrow> round64 x = Finite (round64_val x)"
  by (auto simp add: round64_def Let_def)


lemma fl_abs_neg [simp]: "fl_abs (fl_neg a) = fl_abs a"
  by (cases a) simp_all







lemma compute_reward_eq:
  assumes "target_velocity (params e) = Some d"
  shows "compute_reward e (Some acts) =
           (case py_pow2 d of
              Inl err \<Rightarrow> Inl err
            | Inr square \<Rightarrow>
                Inr (Reward (np_divide
                  (nan_to_num (np_mean_float64 (map (reward_term d) (rl_speeds e)))) square)))"
proof -
  have "(\<lambda>speed. fl_pow2 (fl_sub (Finite d) (fl_abs (fl_sub (Finite speed) (Finite d)))))
          = reward_term d"
    by (simp add: fun_eq_iff reward_term_def)
  then show ?thesis
    unfolding compute_reward_def rl_speeds_def by (simp add: assms Let_def split: sum.split)
qed

lemma py_pow2_Inr:
  assumes "py_pow2 d = Inr sq"
  shows "round64 (d * d) = Finite sq" and "0 \<le> sq"
proof -
  from assms show r: "round64 (d * d) = Finite sq"
    by (simp add: py_pow2_def split: npfloat.splits)
  from round64_nonneg [of "d * d"] r show "0 \<le> sq" by simp
qed

lemma rl_speeds_nonempty: "get_rl_ids (k e) \<noteq> [] \<Longrightarrow> rl_speeds e \<noteq> []"
proof -
  assume "get_rl_ids (k e) \<noteq> []"
  then have "0 < length (get_sorted_rl_ids (k e))"
    by (simp add: length_get_sorted_rl_ids MAX_NUM_VEHS_def)
  then show ?thesis by (simp add: rl_speeds_def)
qed


lemma round64_of_int: "\<bar>m\<bar> < 2 ^ 53 \<Longrightarrow> round64 (of_int m) = Finite (of_int m)"
proof -
  assume m: "\<bar>m\<bar> < 2 ^ 53"
  then have "\<bar>real_of_int m\<bar> < 2 ^ 53"
    by (metis of_int_abs of_int_less_iff of_int_numeral of_int_power)
  then have "\<bar>real_of_int m\<bar> < 2 ^ 1024" by simp
  with m show ?thesis
    by (intro round64_representable [of _ m 0]) simp_all
qed

lemma round64_numeral: "numeral w < (2::int) ^ 53 \<Longrightarrow> round64 (numeral w) = Finite (numeral w)"
  using round64_of_int [of "numeral w"] by simp

lemma round64_one [simp]: "round64 1 = Finite 1"
  using round64_of_int [of 1] by simp

lemma round64_dyadic:
  "\<bar>m\<bar> < 2 ^ 53 \<Longrightarrow> n \<le> 1074 \<Longrightarrow> round64 (of_int m / 2 ^ n) = Finite (of_int m / 2 ^ n)"
proof -
  assume m: "\<bar>m\<bar> < 2 ^ 53" and n: "n \<le> 1074"
  have eq: "real_of_int m / 2 ^ n = of_int m * 2 powi (- int n)"
    by (simp add: power_int_minus divide_inverse)
  from m have "\<bar>real_of_int m\<bar> < 2 ^ 53"
    by (metis of_int_abs of_int_less_iff of_int_numeral of_int_power)
  moreover have "\<bar>real_of_int m\<bar> / 2 ^ n \<le> \<bar>real_of_int m\<bar> / 1"
    by (intro divide_left_mono) simp_all
  then have "\<bar>real_of_int m / 2 ^ n\<bar> \<le> \<bar>real_of_int m\<bar>"
    by simp
  ultimately have "\<bar>real_of_int m / 2 ^ n\<bar> < 2 ^ 1024" by simp
  with m n show ?thesis
    by (intro round64_representable [OF eq]) simp_all
qed

lemma reward_env_target [simp]: "target_velocity (params (reward_env tv sp)) = tv"
  by (simp add: reward_env_def)

lemmas reward_env_simps =
  rl_speeds_def reward_env_def get_sorted_rl_ids_def slice_last_def MAX_NUM_VEHS_def
  table_lookup_def

lemmas float_eval_simps =
  compute_reward_eq reward_term_def fl_sub_def np_mean_float64_def py_pow2_def np_divide_def
  round64_numeral round64_minus

lemma round64_tiny:
  assumes "\<bar>x\<bar> < 2 powi (- 1075)"
  shows "round64 x = Finite 0"
proof -
  have "(2::real) powi (- 1075) \<le> 2 powi (- 1021)"
    by (intro power_int_increasing) simp_all
  with assms have "binade x = - 1022"
    by (intro binade_subnormal) simp
  moreover have "round_half_even (x / 2 powi (- 1074)) = 0"
  proof (rule round_half_even_eval)
    have "\<bar>x / 2 powi (- 1074)\<bar> < 2 powi (- 1075) / 2 powi (- 1074)"
      using assms by (simp add: divide_strict_right_mono)
    also have "(2::real) powi (- 1075) / 2 powi (- 1074) = 2 powi (- 1075 - (- 1074))"
      by (subst power_int_diff) simp_all
    also have "\<dots> = 1 / 2" by simp
    finally show "real_of_int 0 - 1 / 2 < x / 2 powi (- 1074)"
      and "x / 2 powi (- 1074) < real_of_int 0 + 1 / 2"
      by (simp_all add: abs_less_iff)
  qed
  ultimately have "round64_val x = 0"
    by (simp add: round64_val_def Let_def)
  then show ?thesis by (simp add: round64_def)
qed

lemma round64_huge:
  assumes "2 ^ 1024 \<le> x"
  shows "round64 x = PosInf"
proof -
  have "round64_val (2 ^ 1024) = 2 ^ 1024"
    by (rule round64_val_representable [of _ 1 1024]) simp_all
  with round64_val_mono [OF assms] show ?thesis
    by (simp add: round64_def Let_def)
qed

lemma py_pow2_range:
  assumes "2 powi (- 537) \<le> \<bar>d\<bar>" and "\<bar>d\<bar> \<le> 2 ^ 511"
  shows "\<exists>sq. py_pow2 d = Inr sq \<and> 0 < sq"
proof -
  have sq: "d * d = \<bar>d\<bar> * \<bar>d\<bar>" by simp
  have "2 powi (- 537) * 2 powi (- 537) \<le> \<bar>d\<bar> * \<bar>d\<bar>"
    using assms(1) by (intro mult_mono) simp_all
  moreover have "(2::real) powi (- 537) * 2 powi (- 537) = 2 powi (- 1074)"
    by (simp flip: power_int_add)
  ultimately have lo: "2 powi (- 1074) \<le> d * d" by (simp only: sq)
  have "\<bar>d\<bar> * \<bar>d\<bar> \<le> 2 ^ 511 * 2 ^ 511"
    using assms(2) by (intro mult_mono) simp_all
  then have hi: "d * d \<le> 2 ^ 1022" by (simp only: sq) simp
  have "round64_val (2 powi (- 1074)) = 2 powi (- 1074)"
    by (rule round64_val_representable [of _ 1 "- 1074"]) simp_all
  with round64_val_mono [OF lo] have l: "2 powi (- 1074) \<le> round64_val (d * d)" by simp
  have "round64_val (2 ^ 1022) = 2 ^ 1022"
    by (rule round64_val_representable [of _ 1 1022]) simp_all
  with round64_val_mono [OF hi] have h: "round64_val (d * d) \<le> 2 ^ 1022" by simp
  have pos: "0 < round64_val (d * d)"
    using l by (rule less_le_trans [rotated]) simp
  with h have "\<bar>round64_val (d * d)\<bar> < 2 ^ 1024" by simp
  then have "round64 (d * d) = Finite (round64_val (d * d))"
    by (rule round64_Finite)
  with pos show ?thesis by (simp add: py_pow2_def)
qed

lemma compute_reward_empty:
  assumes "target_velocity (params e) = Some d" and "get_rl_ids (k e) = []"
  shows "compute_reward e (Some acts) =
           (case py_pow2 d of Inl err \<Rightarrow> Inl err | Inr sq \<Rightarrow> Inr (Reward (np_divide 0 sq)))"
proof -
  from assms(2) have "rl_speeds e = []"
    by (simp add: rl_speeds_def get_sorted_rl_ids_def slice_last_def)
  then show ?thesis
    by (simp add: compute_reward_eq [OF assms(1)] np_mean_float64_def split: sum.split)
qed

lemma compute_reward_empty_env:
  "compute_reward (reward_env (Some d) []) (Some []) =
     (case py_pow2 d of Inl err \<Rightarrow> Inl err | Inr sq \<Rightarrow> Inr (Reward (np_divide 0 sq)))"
  by (rule compute_reward_empty) (simp_all add: reward_env_def)

text \<open>
  Claim C7, as stated, fails. With no controllable vehicle: a target velocity of 0 gives
  NaN (the division by the squared target comes after \<open>nan_to_num\<close>); without the key
  \<open>target_velocity\<close> the lookup raises \<open>KeyError\<close>; a target velocity of \<open>1 / 2 ^ 600\<close>,
  whose square underflows to zero, gives NaN; and a target velocity of \<open>2 ^ 600\<close>, whose
  square overflows, raises \<open>OverflowError\<close>.
\<close>

theorem compute_reward_no_vehicles_counterexample:
  "compute_reward (reward_env (Some 0) []) (Some []) = Inr (Reward NaN)
   \<and> compute_reward (reward_env None []) (Some []) = Inl KeyError
   \<and> compute_reward (reward_env (Some (1 / 2 ^ 600)) []) (Some []) = Inr (Reward NaN)
   \<and> compute_reward (reward_env (Some (2 ^ 600)) []) (Some []) = Inl OverflowError"
proof -
  have "py_pow2 0 = Inr 0"
    by (simp add: py_pow2_def)
  then have "compute_reward (reward_env (Some 0) []) (Some []) = Inr (Reward NaN)"
    unfolding compute_reward_empty_env by (simp add: np_divide_def)
  moreover have "compute_reward (reward_env None []) (Some []) = Inl KeyError"
    by (simp add: compute_reward_def)
  moreover have "round64 (1 / 2 ^ 600 * (1 / 2 ^ 600)) = Finite 0"
    by (rule round64_tiny) simp
  then have "py_pow2 (1 / 2 ^ 600) = Inr 0"
    unfolding py_pow2_def by (simp only: npfloat.case)
  then have "compute_reward (reward_env (Some (1 / 2 ^ 600)) []) (Some []) = Inr (Reward NaN)"
    unfolding compute_reward_empty_env by (simp only: sum.case) (simp add: np_divide_def)
  moreover have "round64 (2 ^ 600 * 2 ^ 600) = PosInf"
    by (rule round64_huge) simp
  then have "py_pow2 (2 ^ 600) = Inl OverflowError"
    unfolding py_pow2_def by (simp only: npfloat.case)
  then have "compute_reward (reward_env (Some (2 ^ 600)) []) (Some []) = Inl OverflowError"
    unfolding compute_reward_empty_env by (simp only: sum.case)
  ultimately show ?thesis by blast
qed

text \<open>
  Claim C7, amended. With an action that is not \<open>None\<close>, no live controllable vehicle,
  and a configured target velocity whose square is computed without overflow and is not
  zero, \<open>compute_reward\<close> returns 0: neither NaN nor an exception. That is so for every
  target velocity of absolute value between \<open>2 powi (- 537)\<close> and \<open>2 ^ 511\<close>.
\<close>

theorem compute_reward_no_vehicles:
  assumes "target_velocity (params e) = Some d" and "get_rl_ids (k e) = []"
  shows "(py_pow2 d = Inr sq \<and> sq \<noteq> 0 \<longrightarrow>
            compute_reward e (Some acts) = Inr (Reward (Finite 0)))
         \<and> (2 powi (- 537) \<le> \<bar>d\<bar> \<and> \<bar>d\<bar> \<le> 2 ^ 511 \<longrightarrow>
            compute_reward e (Some acts) = Inr (Reward (Finite 0)))"
proof (intro conjI impI)
  assume "py_pow2 d = Inr sq \<and> sq \<noteq> 0"
  then show "compute_reward e (Some acts) = Inr (Reward (Finite 0))"
    by (simp add: compute_reward_empty [OF assms] np_divide_def)
next
  assume "2 powi (- 537) \<le> \<bar>d\<bar> \<and> \<bar>d\<bar> \<le> 2 ^ 511"
  then obtain sq' where "py_pow2 d = Inr sq'" and "0 < sq'"
    using py_pow2_range [of d] by blast
  then show "compute_reward e (Some acts) = Inr (Reward (Finite 0))"
    by (simp add: compute_reward_empty [OF assms] np_divide_def)
qed

theorem compute_reward_no_vehicles_witness:
  "compute_reward (reward_env (Some 10) []) (Some []) = Inr (Reward (Finite 0))
   \<and> py_pow2 10 = Inr 100"
proof -
  have p: "py_pow2 10 = Inr 100"
    by (simp add: py_pow2_def round64_numeral)
  have "compute_reward (reward_env (Some 10) []) (Some []) = Inr (Reward (Finite 0))"
    using compute_reward_no_vehicles [of "reward_env (Some 10) []" 10 100 "[]"] p
    by (simp add: reward_env_def)
  with p show ?thesis by simp
qed

lemma mean_single:
  assumes "a = round64 z"
  shows "np_mean_float64 [a] = a"
proof (cases "round64 z")
  case (Finite y)
  then have "round64 y = Finite y" by (rule round64_idem)
  with Finite assms show ?thesis by (simp add: np_mean_float64_def)
qed (use assms in \<open>simp_all add: np_mean_float64_def\<close>)

lemma reward_term_at_target:
  assumes "round64 d = Finite d"
  shows "reward_term d d = round64 (d * d)"
  by (simp add: reward_term_def fl_sub_def assms)

lemma reward_term_at_zero:
  assumes "round64 d = Finite d" and "0 \<le> d"
  shows "reward_term d 0 = Finite 0"
  using assms by (simp add: reward_term_def fl_sub_def round64_minus)

lemma reward_term_at_twice:
  assumes "round64 d = Finite d" and "0 \<le> d"
  shows "reward_term d (2 * d) = Finite 0"
  using assms by (simp add: reward_term_def fl_sub_def)

lemma compute_reward_single:
  assumes "target_velocity (params e) = Some d" and "py_pow2 d = Inr sq"
    and "rl_speeds e = [s]" and "reward_term d s = round64 z"
  shows "compute_reward e (Some acts) = Inr (Reward (np_divide (nan_to_num (round64 z)) sq))"
  by (simp add: compute_reward_eq [OF assms(1)] assms(2,3) mean_single [OF refl] assms(4))

text \<open>
  Claim C3, as stated, fails: with target velocity 10 and one vehicle at speed 5 the code
  returns 1/4, the formula of the specification 3/4.
\<close>

theorem compute_reward_spec_formula_counterexample:
  "compute_reward (reward_env (Some 10) [(''a'', 5)]) (Some [0]) = Inr (Reward (Finite (1 / 4)))
   \<and> spec_reward 10 [5] = 3 / 4"
proof -
  have s: "rl_speeds (reward_env (Some 10) [(''a'', 5)]) = [5]"
    by (simp add: reward_env_simps)
  have r: "round64 (1 / 4) = Finite (1 / 4)"
    using round64_dyadic [of 1 2] by simp
  show ?thesis
    by (simp add: float_eval_simps s r spec_reward_def)
qed

text \<open>
  Claim C3, amended. With an action that is not \<open>None\<close>, a configured target velocity
  whose square does not overflow, and at least one live controllable vehicle,
  \<open>compute_reward\<close> is the mean over the selected vehicles of the square of (target minus
  the absolute distance of the speed from the target), divided by the square of the
  target, evaluated in float64 arithmetic. With target velocity 10 and one vehicle, speed
  10 gives 1 and speed 0 gives 0. For one vehicle whose speed is 0, the target or twice the
  target, and a positive float64 target whose square is not zero, it is the quantity of
  the specification.
\<close>

theorem compute_reward_formula:
  assumes "target_velocity (params e) = Some d" and "py_pow2 d = Inr sq"
    and "get_rl_ids (k e) \<noteq> []"
  shows "compute_reward e (Some acts) =
           Inr (Reward (np_divide
             (nan_to_num (fl_div_count
                (np_sum (map (\<lambda>speed. fl_pow2 (fl_sub (Finite d)
                                           (fl_abs (fl_sub (Finite speed) (Finite d)))))
                             (rl_speeds e)))
                (length (rl_speeds e))))
             sq))
         \<and> (d = 10 \<and> rl_speeds e = [10] \<longrightarrow>
              compute_reward e (Some acts) = Inr (Reward (Finite 1)))
         \<and> (d = 10 \<and> rl_speeds e = [0] \<longrightarrow>
              compute_reward e (Some acts) = Inr (Reward (Finite 0)))
         \<and> (0 < d \<and> round64 d = Finite d \<and> sq \<noteq> 0
              \<and> (rl_speeds e = [0] \<or> rl_speeds e = [d] \<or> rl_speeds e = [2 * d]) \<longrightarrow>
              compute_reward e (Some acts) = Inr (Reward (Finite (spec_reward d (rl_speeds e)))))"
proof (intro conjI impI)
  have "(\<lambda>speed. fl_pow2 (fl_sub (Finite d) (fl_abs (fl_sub (Finite speed) (Finite d)))))
          = reward_term d"
    by (simp add: fun_eq_iff reward_term_def)
  moreover have "rl_speeds e \<noteq> []"
    by (rule rl_speeds_nonempty [OF assms(3)])
  ultimately show "compute_reward e (Some acts) =
           Inr (Reward (np_divide
             (nan_to_num (fl_div_count
                (np_sum (map (\<lambda>speed. fl_pow2 (fl_sub (Finite d)
                                           (fl_abs (fl_sub (Finite speed) (Finite d)))))
                             (rl_speeds e)))
                (length (rl_speeds e))))
             sq))"
    by (simp add: compute_reward_eq [OF assms(1)] assms(2) np_mean_float64_def)
next
  assume h: "d = 10 \<and> rl_speeds e = [10]"
  with assms(2) have "sq = 100" by (simp add: py_pow2_def round64_numeral)
  with h assms(1) show "compute_reward e (Some acts) = Inr (Reward (Finite 1))"
    by (simp add: float_eval_simps)
next
  assume h: "d = 10 \<and> rl_speeds e = [0]"
  with assms(2) have "sq = 100" by (simp add: py_pow2_def round64_numeral)
  with h assms(1) show "compute_reward e (Some acts) = Inr (Reward (Finite 0))"
    by (simp add: float_eval_simps)
next
  assume h: "0 < d \<and> round64 d = Finite d \<and> sq \<noteq> 0
             \<and> (rl_speeds e = [0] \<or> rl_speeds e = [d] \<or> rl_speeds e = [2 * d])"
  then have d: "0 \<le> d" "round64 d = Finite d" "d \<noteq> 0" and sq: "sq \<noteq> 0" by simp_all
  note p = py_pow2_Inr [OF assms(2)]
  from h consider "rl_speeds e = [0]" | "rl_speeds e = [d]" | "rl_speeds e = [2 * d]" by blast
  then show "compute_reward e (Some acts) = Inr (Reward (Finite (spec_reward d (rl_speeds e))))"
  proof cases
    case 1
    have "reward_term d 0 = round64 0"
      using d by (simp add: reward_term_at_zero)
    from compute_reward_single [OF assms(1,2) 1 this] sq show ?thesis
      by (simp add: 1 np_divide_def spec_reward_def)
  next
    case 2
    have "reward_term d d = round64 (d * d)"
      using d by (simp add: reward_term_at_target)
    from compute_reward_single [OF assms(1,2) 2 this] sq d show ?thesis
      by (simp add: 2 p np_divide_def spec_reward_def)
  next
    case 3
    have "reward_term d (2 * d) = round64 0"
      using d by (simp add: reward_term_at_twice)
    from compute_reward_single [OF assms(1,2) 3 this] sq show ?thesis
      by (simp add: 3 np_divide_def spec_reward_def power2_eq_square)
  qed
qed

theorem compute_reward_formula_witness:
  "compute_reward (reward_env (Some 10) [(''a'', 10)]) (Some [0]) = Inr (Reward (Finite 1))
   \<and> compute_reward (reward_env (Some 10) [(''a'', 0)]) (Some [0]) = Inr (Reward (Finite 0))
   \<and> rl_speeds (reward_env (Some 10) [(''a'', 10)]) = [10]
   \<and> rl_speeds (reward_env (Some 10) [(''a'', 0)]) = [0]
   \<and> py_pow2 10 = Inr 100"
proof -
  let ?e = "reward_env (Some 10) [(''a'', 10)]"
  let ?e' = "reward_env (Some 10) [(''a'', 0)]"
  have a: "rl_speeds ?e = [10]" and b: "rl_speeds ?e' = [0]"
    by (simp_all add: reward_env_simps)
  have p: "py_pow2 10 = Inr 100"
    by (simp add: py_pow2_def round64_numeral)
  have t: "target_velocity (params ?e) = Some 10" "target_velocity (params ?e') = Some 10"
    by simp_all
  have n: "get_rl_ids (k ?e) \<noteq> []" "get_rl_ids (k ?e') \<noteq> []"
    by (simp_all add: reward_env_def)
  from compute_reward_formula [OF t(1) p n(1), of "[0]"] a
  have "compute_reward ?e (Some [0]) = Inr (Reward (Finite 1))"
    by blast
  moreover from compute_reward_formula [OF t(2) p n(2), of "[0]"] b
  have "compute_reward ?e' (Some [0]) = Inr (Reward (Finite 0))"
    by blast
  ultimately show ?thesis using a b p by blast
qed












section \<open>Episode termination (\<open>SingleStraightRoad.step\<close>)\<close>

text \<open>
  Claim C4. With the three wave-termination keys configured, the flag returned by
  \<open>step\<close> is the base class's flag, or true when termination on a wave is enabled, at
  least one vehicle is present, the mean speed of all vehicles is below the configured
  speed and the step counter exceeds the configured horizon. With horizon 500 and speed
  10, a state of mean speed 5 terminates at step 501 and not at step 400.
\<close>

theorem step_wave_termination:
  assumes "terminate_on_wave (params e) = Some tow"
    and "wave_termination_speed (params e) = Some floor_speed"
    and "wave_termination_horizon (params e) = Some horizon"
  shows "step e (obs, rew, done, info) =
           Inr (obs, rew,
                done \<or> (tow \<and> get_ids (k e) \<noteq> []
                        \<and> sum_list (map (get_speed (k e)) (get_ids (k e)))
                             / real (length (get_ids (k e))) < floor_speed
                        \<and> horizon < time_counter e),
                info)"
  using assms by (auto simp add: step_def np_mean_def)

theorem step_wave_termination_witness:
  "step (wave_env 501) ((), (), False, ()) = Inr ((), (), True, ())
   \<and> step (wave_env 400) ((), (), False, ()) = Inr ((), (), False, ())
   \<and> sum_list (map (get_speed (k (wave_env 501))) (get_ids (k (wave_env 501))))
        / real (length (get_ids (k (wave_env 501)))) = 5"
  using step_wave_termination [of "wave_env 501" True 10 500 "()" "()" False "()"]
        step_wave_termination [of "wave_env 400" True 10 500 "()" "()" False "()"]
  by (simp add: wave_env_def ADDITIONAL_ENV_PARAMS_def two_vehicles_def table_lookup_def)

text \<open>
  Claim C9. When the base class's \<open>step\<close> reports \<open>done = True\<close>, every value that
  \<open>SingleStraightRoad.step\<close> returns carries \<open>done = True\<close>, and the observation, reward
  and info unchanged, whatever the wave condition.
\<close>

theorem step_keeps_done:
  "step e (obs, rew, True, info) = Inr r \<Longrightarrow> r = (obs, rew, True, info)"
  by (auto simp add: step_def split: option.splits if_splits)

theorem step_keeps_done_witness:
  "step (wave_env 400) ((), (), True, ()) = Inr ((), (), True, ())"
proof -
  have r: "step (wave_env 400) ((), (), True, ()) = Inr ((), (), True, ())"
    by (simp add: step_def wave_env_def ADDITIONAL_ENV_PARAMS_def two_vehicles_def
        table_lookup_def np_mean_def)
  from step_keeps_done [OF r] show ?thesis by (simp add: r)
qed

section \<open>Warm-up phase\<close>

text \<open>
  Claim C8. With the action \<open>None\<close>, \<open>_apply_rl_actions\<close> leaves the environment as it
  is (no call of \<open>apply_acceleration\<close> is recorded), and \<open>compute_reward\<close> returns the
  empty dictionary.
\<close>

theorem warmup_no_actuation_no_reward:
  "apply_rl_actions e None = Inr e \<and> compute_reward e None = Inr Empty_dict"
  by (simp add: apply_rl_actions_def compute_reward_def)

end
